theory Spec2Isabelle
  imports Main "HOL-Library.Word"
begin

unbundle bit_operations_syntax

section \<open>Lazymote: a low-power infrared remote (remote.c)\<close>

text \<open>
  The firmware is one C file for an 8-bit AVR. Its registers are modelled as a record that
  every function takes and returns; the two sleep primitives, which are the only places
  where time passes, append an event to a trace held in the same record. The button lines
  are read from a list of samples supplied by the environment.
\<close>

type_synonym u8 = "8 word"
type_synonym u16 = "16 word"
type_synonym u32 = "32 word"

subsection \<open>Constants of remote.c\<close>

definition PORTB_BUTTON_PIN_MASK :: u8 where
  "PORTB_BUTTON_PIN_MASK = 0x1E"

definition PORTB_OUTPUT_PIN_MASK :: u8 where
  "PORTB_OUTPUT_PIN_MASK = 0x01"

definition IR_CARRIER_FREQ :: u32 where
  "IR_CARRIER_FREQ = 40000"

definition HEADER_BIT_DURATION :: u32 where
  "HEADER_BIT_DURATION = 2400"

definition ZERO_BIT_ON_DURATION :: u32 where
  "ZERO_BIT_ON_DURATION = 600"

definition ONE_BIT_ON_DURATION :: u32 where
  "ONE_BIT_ON_DURATION = 1200"

definition BIT_OFF_DURATION :: u32 where
  "BIT_OFF_DURATION = 600"

definition POST_DELAY_DURATION :: u32 where
  "POST_DELAY_DURATION = 45"

definition DEBOUNCE_DURATION :: u32 where
  "DEBOUNCE_DURATION = 10"

subsection \<open>Bit positions of the device header\<close>

text \<open>
  remote.c names register bits through \<^verbatim>\<open>avr/io.h\<close>. The registers it uses (GIMSK, PCMSK,
  TCCR1 with CS13) are those of the ATtiny25/45/85, whose header gives the positions below.
\<close>

definition COM0A0 :: nat where "COM0A0 = 6"
definition WGM01 :: nat where "WGM01 = 1"
definition CS00 :: nat where "CS00 = 0"
definition CS10 :: nat where "CS10 = 0"
definition CS12 :: nat where "CS12 = 2"
definition CS13 :: nat where "CS13 = 3"
definition OCIE1A :: nat where "OCIE1A = 6"
definition PCIE :: nat where "PCIE = 5"
definition ACD :: nat where "ACD = 7"

text \<open>\<^verbatim>\<open>_BV(n)\<close> is \<^verbatim>\<open>1 << n\<close>.\<close>

definition BV :: "nat \<Rightarrow> u8" where
  "BV n = push_bit n 1"

subsection \<open>The command table\<close>

record command_def =
  pinmask :: u8
  code :: u16

definition command_defs :: "command_def list" where
  "command_defs =
    [ \<lparr>pinmask = 0x02, code = 21 OR push_bit 7 1\<rparr>,
      \<lparr>pinmask = 0x04, code = 18 OR push_bit 7 1\<rparr>,
      \<lparr>pinmask = 0x08, code = 19 OR push_bit 7 1\<rparr>,
      \<lparr>pinmask = 0x0C, code = 20 OR push_bit 7 1\<rparr>,
      \<lparr>pinmask = 0x10, code = 37 OR push_bit 7 1\<rparr> ]"

subsection \<open>Hardware state and the trace of sleeps\<close>

text \<open>
  A duration as the source writes it: the argument of \<^verbatim>\<open>idle_sleep_us\<close> or of
  \<^verbatim>\<open>idle_sleep_ms\<close>.
\<close>

datatype duration = Us nat | Ms nat

text \<open>
  One idle sleep. \<open>requested\<close> is the macro's argument; \<open>ev_ticks\<close> and \<open>ev_prescaler\<close> are
  what the macro passes to \<^verbatim>\<open>idle_sleep\<close>; the other fields are the values, while the CPU
  sleeps, of the registers that decide whether the carrier reaches the output pin.
\<close>

record sleep_ev =
  requested :: duration
  ev_ticks :: u8
  ev_prescaler :: u8
  ev_TCCR0A :: u8
  ev_DDRB :: u8
  ev_timer0 :: bool

datatype event = IdleSleep sleep_ev | PowerDown

datatype sleep_mode = SLEEP_MODE_IDLE | SLEEP_MODE_PWR_DOWN

text \<open>
  The registers remote.c touches. The power-reduction and sleep-control registers are
  written only through the macros of \<^verbatim>\<open>avr/power.h\<close> and \<^verbatim>\<open>avr/sleep.h\<close>, so they
  are kept as what those macros switch. \<open>trace\<close> lists the sleeps in the order they were
  taken; \<open>sent\<close> lists the codes \<^verbatim>\<open>transmit_code_for_buttons\<close>, the only caller, has passed
  to \<^verbatim>\<open>transmit_sony_12bit_code\<close>.
\<close>

record hw =
  PORTB :: u8
  DDRB :: u8
  PCMSK :: u8
  GIMSK :: u8
  ACSR :: u8
  TCCR0A :: u8
  TCCR0B :: u8
  OCR0A :: u8
  OCR1A :: u8
  TCCR1 :: u8
  TCNT1 :: u8
  TIMSK :: u8
  timer0_on :: bool
  timer1_on :: bool
  adc_on :: bool
  usi_on :: bool
  sleep_enabled :: bool
  mode :: sleep_mode
  I_flag :: bool
  trace :: "event list"
  sent :: "u16 list"

text \<open>The state after reset: registers cleared, every peripheral powered.\<close>

definition reset_hw :: hw where
  "reset_hw =
    \<lparr>PORTB = 0, DDRB = 0, PCMSK = 0, GIMSK = 0, ACSR = 0, TCCR0A = 0, TCCR0B = 0,
     OCR0A = 0, OCR1A = 0, TCCR1 = 0, TCNT1 = 0, TIMSK = 0,
     timer0_on = True, timer1_on = True, adc_on = True, usi_on = True,
     sleep_enabled = False, mode = SLEEP_MODE_IDLE, I_flag = False,
     trace = [], sent = []\<rparr>"

subsection \<open>Power Controller\<close>

text \<open>
  \<^verbatim>\<open>power_down_and_wait_for_pin_change\<close>, with the pin-change interrupt that ends the
  sleep: the handler clears GIMSK and returns without setting the I flag.
\<close>

definition PCINT0_vect :: "hw \<Rightarrow> hw" where
  "PCINT0_vect s = s\<lparr>I_flag := False, GIMSK := 0\<rparr>"

definition power_down_and_wait_for_pin_change :: "hw \<Rightarrow> hw" where
  "power_down_and_wait_for_pin_change s =
    (let s1 = s\<lparr>PORTB := PORTB s AND NOT PORTB_OUTPUT_PIN_MASK\<rparr>;
         s2 = s1\<lparr>DDRB := 0\<rparr>;
         s3 = s2\<lparr>mode := SLEEP_MODE_PWR_DOWN\<rparr>;
         s4 = s3\<lparr>GIMSK := BV PCIE\<rparr>;
         s5 = s4\<lparr>I_flag := True\<rparr>;
         s6 = s5\<lparr>trace := trace s5 @ [PowerDown]\<rparr>
     in PCINT0_vect s6)"

text \<open>
  The Timer1 compare interrupt that ends an idle sleep: it stops and clears the timer and
  returns without setting the I flag.
\<close>

definition TIMER1_COMPA_vect :: "hw \<Rightarrow> hw" where
  "TIMER1_COMPA_vect s = s\<lparr>I_flag := False, TIMSK := 0, TCCR1 := 0, TCNT1 := 0\<rparr>"

text \<open>
  \<^verbatim>\<open>idle_sleep(ticks, prescaler)\<close>. The first argument of the model is the duration the
  calling macro was given; it is only recorded in the trace.
\<close>

definition idle_sleep :: "duration \<Rightarrow> u8 \<Rightarrow> u8 \<Rightarrow> hw \<Rightarrow> hw" where
  "idle_sleep req ticks prescaler s =
    (let s1 = s\<lparr>mode := SLEEP_MODE_IDLE\<rparr>;
         s2 = s1\<lparr>timer1_on := True\<rparr>;
         s3 = s2\<lparr>OCR1A := ticks\<rparr>;
         s4 = s3\<lparr>TIMSK := BV OCIE1A\<rparr>;
         s5 = s4\<lparr>TCCR1 := prescaler\<rparr>;
         s6 = s5\<lparr>I_flag := True\<rparr>;
         s7 = s6\<lparr>trace := trace s6 @
                [IdleSleep \<lparr>requested = req, ev_ticks = OCR1A s6, ev_prescaler = TCCR1 s6,
                   ev_TCCR0A = TCCR0A s6, ev_DDRB = DDRB s6, ev_timer0 = timer0_on s6\<rparr>]\<rparr>;
         s8 = TIMER1_COMPA_vect s7
     in s8\<lparr>timer1_on := False\<rparr>)"

text \<open>
  The tick counts of the two macros. \<^verbatim>\<open>F_CPU\<close> comes from the build, not from remote.c,
  and is a parameter. The product is an \<^verbatim>\<open>unsigned long\<close> (32 bits on the AVR, wrapping),
  the quotient is cut to the 8 bits of the parameter \<^verbatim>\<open>ticks\<close>.
\<close>

definition us_ticks :: "u32 \<Rightarrow> u32 \<Rightarrow> u8" where
  "us_ticks f_cpu us = ucast ((f_cpu * us) div (16 * 1000000))"

definition ms_ticks :: "u32 \<Rightarrow> u32 \<Rightarrow> u8" where
  "ms_ticks f_cpu ms = ucast ((f_cpu * ms) div (4096 * 1000))"

definition idle_sleep_us :: "u32 \<Rightarrow> u32 \<Rightarrow> hw \<Rightarrow> hw" where
  "idle_sleep_us f_cpu us =
     idle_sleep (Us (unat us)) (us_ticks f_cpu us) (BV CS12 OR BV CS10)"

definition idle_sleep_ms :: "u32 \<Rightarrow> u32 \<Rightarrow> hw \<Rightarrow> hw" where
  "idle_sleep_ms f_cpu ms =
     idle_sleep (Ms (unat ms)) (ms_ticks f_cpu ms) (BV CS13 OR BV CS12 OR BV CS10)"

text \<open>
  What a tick count stands for. The comments of remote.c give the prescalers the two
  macros select: 1/16 for \<^verbatim>\<open>_BV(CS12)|_BV(CS10)\<close> and 1/4096 for
  \<^verbatim>\<open>_BV(CS13)|_BV(CS12)|_BV(CS10)\<close>; on the ATtiny85 the clock-select value \<open>n > 0\<close>
  divides the clock by \<open>2 ^ (n - 1)\<close>. \<open>sleep_time_us\<close> is the time, in microseconds, that
  Timer1 needs to count \<open>ticks\<close> at that rate, call and interrupt overhead left out.
\<close>

definition timer1_divisor :: "u8 \<Rightarrow> nat" where
  "timer1_divisor cs = 2 ^ (unat cs - 1)"

definition sleep_time_us :: "u32 \<Rightarrow> u8 \<Rightarrow> u8 \<Rightarrow> nat" where
  "sleep_time_us f_cpu prescaler ticks =
     (unat ticks * timer1_divisor prescaler * 1000000) div unat f_cpu"

subsection \<open>Protocol Transmitter\<close>

definition ir_enabled :: u8 where
  "ir_enabled = BV COM0A0 OR BV WGM01"

text \<open>One pass of the body of the loop over the data bits.\<close>

definition send_bit :: "u32 \<Rightarrow> u16 \<Rightarrow> hw \<Rightarrow> hw" where
  "send_bit f_cpu c s =
    (let s1 = s\<lparr>TCCR0A := ir_enabled\<rparr>;
         s2 = (if c AND 1 \<noteq> 0 then idle_sleep_us f_cpu ONE_BIT_ON_DURATION s1
               else idle_sleep_us f_cpu ZERO_BIT_ON_DURATION s1);
         s3 = s2\<lparr>TCCR0A := 0\<rparr>
     in idle_sleep_us f_cpu BIT_OFF_DURATION s3)"

text \<open>
  \<^verbatim>\<open>for (i = 0; i < 12; i++) { ...; code >>= 1; }\<close>, entered with any \<open>i\<close>. The counter
  stays below 13, so its 8 bits never wrap and it is a \<open>nat\<close> here.
\<close>

function bit_loop :: "u32 \<Rightarrow> nat \<Rightarrow> u16 \<Rightarrow> hw \<Rightarrow> hw" where
  "bit_loop f_cpu i c s =
    (if i < 12 then bit_loop f_cpu (i + 1) (drop_bit 1 c) (send_bit f_cpu c s) else s)"
  by pat_completeness auto
termination
  by (relation "measure (\<lambda>(f_cpu, i, c, s). 12 - i)") auto

definition transmit_sony_12bit_code :: "u32 \<Rightarrow> u16 \<Rightarrow> hw \<Rightarrow> hw" where
  "transmit_sony_12bit_code f_cpu c s =
    (let s1 = s\<lparr>timer0_on := True\<rparr>;
         s2 = s1\<lparr>TCCR0A := ir_enabled\<rparr>;
         s3 = s2\<lparr>DDRB := PORTB_OUTPUT_PIN_MASK\<rparr>;
         s4 = idle_sleep_us f_cpu HEADER_BIT_DURATION s3;
         s5 = s4\<lparr>TCCR0A := 0\<rparr>;
         s6 = idle_sleep_us f_cpu BIT_OFF_DURATION s5;
         s7 = bit_loop f_cpu 0 c s6;
         s8 = s7\<lparr>DDRB := 0\<rparr>;
         s9 = s8\<lparr>timer0_on := False\<rparr>
     in idle_sleep_ms f_cpu POST_DELAY_DURATION s9)"

subsection \<open>Command Resolver\<close>

text \<open>
  The scan of \<^verbatim>\<open>transmit_code_for_buttons\<close>: \<open>cmds\<close> is the part of the table from
  \<^verbatim>\<open>cmd\<close> on. The first entry whose pinmask equals \<open>buttons\<close> is transmitted (the call
  is entered in \<open>sent\<close>) and the function returns; at the end of the table it sleeps for the
  debounce duration.
\<close>

fun scan_commands :: "u32 \<Rightarrow> u8 \<Rightarrow> command_def list \<Rightarrow> hw \<Rightarrow> hw" where
  "scan_commands f_cpu buttons [] s = idle_sleep_ms f_cpu DEBOUNCE_DURATION s"
| "scan_commands f_cpu buttons (cmd # cmds) s =
    (if buttons = pinmask cmd then
       (let c = code cmd in transmit_sony_12bit_code f_cpu c (s\<lparr>sent := sent s @ [c]\<rparr>))
     else scan_commands f_cpu buttons cmds s)"

definition transmit_code_for_buttons :: "u32 \<Rightarrow> u8 \<Rightarrow> hw \<Rightarrow> hw" where
  "transmit_code_for_buttons f_cpu buttons s = scan_commands f_cpu buttons command_defs s"

subsection \<open>Main Control Loop\<close>

definition main_init :: "u32 \<Rightarrow> hw \<Rightarrow> hw" where
  "main_init f_cpu s =
    (let s1 = s\<lparr>TCCR0A := BV COM0A0 OR BV WGM01\<rparr>;
         s2 = s1\<lparr>OCR0A := ucast (f_cpu div (2 * IR_CARRIER_FREQ))\<rparr>;
         s3 = s2\<lparr>TCCR0B := BV CS00\<rparr>;
         s4 = s3\<lparr>ACSR := ACSR s3 OR BV ACD\<rparr>;
         s5 = s4\<lparr>timer0_on := False, timer1_on := False, adc_on := False, usi_on := False\<rparr>;
         s6 = s5\<lparr>DDRB := 0\<rparr>;
         s7 = s6\<lparr>PORTB := PORTB_BUTTON_PIN_MASK\<rparr>;
         s8 = s7\<lparr>PCMSK := PORTB_BUTTON_PIN_MASK\<rparr>
     in s8\<lparr>sleep_enabled := True\<rparr>)"

text \<open>
  The processing loop (the inner \<^verbatim>\<open>while (1)\<close>). \<open>pinb\<close> holds the values the next reads of
  PINB will return. The result is \<open>Some rest\<close> when the loop leaves through \<^verbatim>\<open>break\<close> with
  \<open>rest\<close> still unread, and \<open>None\<close> when a read finds no sample left, the loop still running.
\<close>

fun processing_loop :: "u32 \<Rightarrow> u8 \<Rightarrow> u8 \<Rightarrow> u8 list \<Rightarrow> hw \<Rightarrow> u8 list option \<times> hw" where
  "processing_loop f_cpu last_input input pinb s =
    (if input = last_input then
       (let buttons = NOT input AND PORTB_BUTTON_PIN_MASK in
        if buttons = 0 then (Some pinb, s)
        else
          (let s1 = transmit_code_for_buttons f_cpu buttons s in
           case pinb of
             [] \<Rightarrow> (None, s1)
           | x # xs \<Rightarrow> processing_loop f_cpu last_input x xs s1))
     else
       (let s1 = idle_sleep_ms f_cpu DEBOUNCE_DURATION s in
        case pinb of
          [] \<Rightarrow> (None, s1)
        | x # xs \<Rightarrow> processing_loop f_cpu input x xs s1))"

declare processing_loop.simps [simp del]

lemma processing_loop_rest:
  "processing_loop f_cpu last_input input pinb s = (Some rest, s') \<Longrightarrow> length rest \<le> length pinb"
proof (induction f_cpu last_input input pinb s rule: processing_loop.induct)
  case (1 f_cpu last_input input pinb s)
  from "1.prems" "1.IH" show ?case
    by (subst (asm) processing_loop.simps)
       (fastforce simp: Let_def split: if_splits list.splits)
qed

text \<open>
  The outer \<^verbatim>\<open>while (1)\<close>: power down until a pin changes, sleep for the debounce duration,
  read PINB once into both \<open>input\<close> and \<open>last_input\<close>, run the processing loop. The loop has
  no exit; the model stops at the read that finds no sample left.
\<close>

function main_loop :: "u32 \<Rightarrow> u8 list \<Rightarrow> hw \<Rightarrow> hw" where
  "main_loop f_cpu pinb s =
    (let s1 = power_down_and_wait_for_pin_change s;
         s2 = idle_sleep_ms f_cpu DEBOUNCE_DURATION s1
     in case pinb of
          [] \<Rightarrow> s2
        | input # rest \<Rightarrow>
            (case processing_loop f_cpu input input rest s2 of
               (None, s3) \<Rightarrow> s3
             | (Some rest', s3) \<Rightarrow> main_loop f_cpu rest' s3))"
  by pat_completeness auto
termination
  apply (relation "measure (\<lambda>(f_cpu, pinb, s). length pinb)")
   apply simp
  apply (fastforce dest: processing_loop_rest [OF sym])
  done

declare main_loop.simps [simp del]

definition main :: "u32 \<Rightarrow> u8 list \<Rightarrow> hw" where
  "main f_cpu pinb = main_loop f_cpu pinb (main_init f_cpu reset_hw)"

subsection \<open>Observing the output line\<close>

text \<open>
  The carrier reaches the output pin during a sleep when Timer0 is powered, its compare
  output is connected (COM0A0 in TCCR0A) and the pin is an output (bit 0 of DDRB). An idle
  sleep is then one interval of the signal, on or off, of the length the source asked for;
  a power-down sleep has no set length and is no interval.
\<close>

definition gate_on :: "sleep_ev \<Rightarrow> bool" where
  "gate_on e \<longleftrightarrow> bit (ev_TCCR0A e) COM0A0 \<and> bit (ev_DDRB e) 0 \<and> ev_timer0 e"

fun signal_of :: "event \<Rightarrow> (bool \<times> duration) list" where
  "signal_of (IdleSleep e) = [(gate_on e, requested e)]"
| "signal_of PowerDown = []"

definition signal :: "event list \<Rightarrow> (bool \<times> duration) list" where
  "signal tr = concat (map signal_of tr)"

fun duration_us :: "duration \<Rightarrow> nat" where
  "duration_us (Us n) = n"
| "duration_us (Ms n) = 1000 * n"

definition waveform :: "event list \<Rightarrow> (bool \<times> nat) list" where
  "waveform tr = map (\<lambda>(g, d). (g, duration_us d)) (signal tr)"

text \<open>The sleeps a call of \<^verbatim>\<open>transmit_sony_12bit_code\<close> adds to the trace.\<close>

definition emitted :: "u32 \<Rightarrow> u16 \<Rightarrow> hw \<Rightarrow> event list" where
  "emitted f_cpu c s = drop (length (trace s)) (trace (transmit_sony_12bit_code f_cpu c s))"

definition on_time :: "(bool \<times> nat) list \<Rightarrow> nat" where
  "on_time w = sum_list (map snd (filter fst w))"

definition off_time :: "(bool \<times> nat) list \<Rightarrow> nat" where
  "off_time w = sum_list (map snd (filter (\<lambda>p. \<not> fst p) w))"

text \<open>The sleeps a call of \<^verbatim>\<open>transmit_code_for_buttons\<close> adds to the trace.\<close>

definition emitted_for_buttons :: "u32 \<Rightarrow> u8 \<Rightarrow> hw \<Rightarrow> event list" where
  "emitted_for_buttons f_cpu buttons s =
     drop (length (trace s)) (trace (transmit_code_for_buttons f_cpu buttons s))"

text \<open>
  The data bits of a frame as they leave the pin: its marks after the header mark, in
  the order sent, a mark of \<^verbatim>\<open>ONE_BIT_ON_DURATION\<close> being a one.
\<close>

definition data_bits :: "(bool \<times> duration) list \<Rightarrow> bool list" where
  "data_bits sig = map (\<lambda>p. snd p = Us (unat ONE_BIT_ON_DURATION)) (tl (filter fst sig))"

subsection \<open>Reference decoder for the Sony 12-bit format\<close>

text \<open>
  Written from the specification's description of the format, not from remote.c: a header
  mark of 2400 us and a space of 600 us; twelve bits, each a mark of 1200 us (one) or
  600 us (zero) and a space of 600 us, the least significant bit first; then a quiet
  period of at least 45 ms.
\<close>

fun decode_bits :: "nat \<Rightarrow> (bool \<times> nat) list \<Rightarrow> (bool list \<times> (bool \<times> nat) list) option" where
  "decode_bits 0 w = Some ([], w)"
| "decode_bits (Suc n) ((True, m) # (False, sp) # w) =
    (if sp = 600 \<and> (m = 1200 \<or> m = 600)
     then map_option (\<lambda>(bs, r). ((m = 1200) # bs, r)) (decode_bits n w)
     else None)"
| "decode_bits (Suc n) w = None"

definition quiet :: "(bool \<times> nat) list \<Rightarrow> bool" where
  "quiet g \<longleftrightarrow> list_all (\<lambda>p. \<not> fst p) g \<and> 45000 \<le> sum_list (map snd g)"

definition sony12_decode :: "(bool \<times> nat) list \<Rightarrow> u16 option" where
  "sony12_decode w =
    (case w of
       (True, h) # (False, sp) # r \<Rightarrow>
         (if h = 2400 \<and> sp = 600 then
            (case decode_bits 12 r of
               Some (bs, g) \<Rightarrow> if quiet g then Some (horner_sum of_bool 2 bs) else None
             | None \<Rightarrow> None)
          else None)
     | _ \<Rightarrow> None)"

text \<open>The marks and spaces of \<open>n\<close> passes of the bit loop, for the proofs below.\<close>

fun bit_signal :: "nat \<Rightarrow> u16 \<Rightarrow> (bool \<times> duration) list" where
  "bit_signal 0 c = []"
| "bit_signal (Suc n) c =
     (True, Us (if c AND 1 \<noteq> 0 then 1200 else 600)) # (False, Us 600) # bit_signal n (drop_bit 1 c)"

section \<open>Properties\<close>

subsection \<open>The trace of a transmission\<close>

lemma idle_sleep_fields [simp]:
  "trace (idle_sleep r t p s) = trace s @
     [IdleSleep \<lparr>requested = r, ev_ticks = t, ev_prescaler = p,
        ev_TCCR0A = TCCR0A s, ev_DDRB = DDRB s, ev_timer0 = timer0_on s\<rparr>]"
  "DDRB (idle_sleep r t p s) = DDRB s"
  "TCCR0A (idle_sleep r t p s) = TCCR0A s"
  "timer0_on (idle_sleep r t p s) = timer0_on s"
  "sent (idle_sleep r t p s) = sent s"
  by (simp_all add: idle_sleep_def TIMER1_COMPA_vect_def Let_def)

lemma gate_simps [simp]:
  "gate_on \<lparr>requested = r, ev_ticks = t, ev_prescaler = p,
        ev_TCCR0A = ir_enabled, ev_DDRB = d, ev_timer0 = b\<rparr> \<longleftrightarrow> bit d 0 \<and> b"
  "gate_on \<lparr>requested = r, ev_ticks = t, ev_prescaler = p,
        ev_TCCR0A = 0, ev_DDRB = d, ev_timer0 = b\<rparr> \<longleftrightarrow> False"
  by (simp_all add: gate_on_def ir_enabled_def BV_def COM0A0_def WGM01_def bit_simps)

lemma signal_append [simp]: "signal (xs @ ys) = signal xs @ signal ys"
  by (simp add: signal_def)

lemma signal_simps [simp]:
  "signal [] = []"
  "signal (IdleSleep e # tr) = (gate_on e, requested e) # signal tr"
  "signal (PowerDown # tr) = signal tr"
  by (simp_all add: signal_def)

lemma send_bit_fields [simp]:
  "DDRB (send_bit f c s) = DDRB s"
  "TCCR0A (send_bit f c s) = 0"
  "timer0_on (send_bit f c s) = timer0_on s"
  "sent (send_bit f c s) = sent s"
  by (simp_all add: send_bit_def idle_sleep_us_def Let_def)

lemma send_bit_trace:
  "\<exists>new. trace (send_bit f c s) = trace s @ new \<and>
     signal new = [(bit (DDRB s) 0 \<and> timer0_on s, Us (if c AND 1 \<noteq> 0 then 1200 else 600)), (False, Us 600)]"
  by (simp add: send_bit_def idle_sleep_us_def Let_def ONE_BIT_ON_DURATION_def
      ZERO_BIT_ON_DURATION_def BIT_OFF_DURATION_def)

lemma bit_loop_fields:
  "DDRB (bit_loop f i c s) = DDRB s"
  "timer0_on (bit_loop f i c s) = timer0_on s"
  "sent (bit_loop f i c s) = sent s"
  "TCCR0A s = 0 \<Longrightarrow> TCCR0A (bit_loop f i c s) = 0"
  by (induction f i c s rule: bit_loop.induct; simp)+

lemma bit_loop_trace:
  "bit (DDRB s) 0 \<Longrightarrow> timer0_on s \<Longrightarrow>
   \<exists>new. trace (bit_loop f i c s) = trace s @ new \<and> signal new = bit_signal (12 - i) c"
proof (induction f i c s rule: bit_loop.induct)
  case (1 f i c s)
  show ?case
  proof (cases "i < 12")
    case True
    obtain new1 where n1: "trace (send_bit f c s) = trace s @ new1"
      and s1: "signal new1 = [(bit (DDRB s) 0 \<and> timer0_on s, Us (if c AND 1 \<noteq> 0 then 1200 else 600)), (False, Us 600)]"
      using send_bit_trace by blast
    from "1.IH" [OF True] "1.prems"
    obtain new2 where n2: "trace (bit_loop f (i + 1) (drop_bit 1 c) (send_bit f c s)) = trace (send_bit f c s) @ new2"
      and s2: "signal new2 = bit_signal (12 - (i + 1)) (drop_bit 1 c)"
      by auto
    from True have eq: "12 - i = Suc (12 - (i + 1))"
      by simp
    have "trace (bit_loop f i c s) = trace s @ (new1 @ new2)"
      using True n1 n2 by simp
    moreover have "signal (new1 @ new2) = bit_signal (12 - i) c"
      using s1 s2 "1.prems" by (simp add: eq del: bit_loop.simps)
    ultimately show ?thesis
      by blast
  next
    case False
    then show ?thesis by simp
  qed
qed

lemma transmit_trace:
  "\<exists>new. trace (transmit_sony_12bit_code f c s) = trace s @ new \<and>
     signal new = (True, Us 2400) # (False, Us 600) # bit_signal 12 c @ [(False, Ms 45)]"
proof -
  define s5 where "s5 = (idle_sleep_us f HEADER_BIT_DURATION
      (s\<lparr>timer0_on := True, TCCR0A := ir_enabled,
          DDRB := PORTB_OUTPUT_PIN_MASK\<rparr>))\<lparr>TCCR0A := 0\<rparr>"
  define s6 where "s6 = idle_sleep_us f BIT_OFF_DURATION s5"
  have t6: "trace s6 = trace s @
      [IdleSleep \<lparr>requested = Us 2400, ev_ticks = us_ticks f HEADER_BIT_DURATION,
         ev_prescaler = BV CS12 OR BV CS10, ev_TCCR0A = ir_enabled, ev_DDRB = 1, ev_timer0 = True\<rparr>,
       IdleSleep \<lparr>requested = Us 600, ev_ticks = us_ticks f BIT_OFF_DURATION,
         ev_prescaler = BV CS12 OR BV CS10, ev_TCCR0A = 0, ev_DDRB = 1, ev_timer0 = True\<rparr>]"
    by (simp add: s6_def s5_def idle_sleep_us_def HEADER_BIT_DURATION_def BIT_OFF_DURATION_def
        PORTB_OUTPUT_PIN_MASK_def)
  have d6: "bit (DDRB s6) 0" "timer0_on s6"
    by (simp_all add: s6_def s5_def idle_sleep_us_def PORTB_OUTPUT_PIN_MASK_def)
  from bit_loop_trace [OF d6, of f 0 c]
  obtain new where n: "trace (bit_loop f 0 c s6) = trace s6 @ new" and sn: "signal new = bit_signal 12 c"
    by auto
  have "trace (transmit_sony_12bit_code f c s) = trace (bit_loop f 0 c s6) @
      [IdleSleep \<lparr>requested = Ms 45, ev_ticks = ms_ticks f POST_DELAY_DURATION,
         ev_prescaler = BV CS13 OR BV CS12 OR BV CS10, ev_TCCR0A = TCCR0A (bit_loop f 0 c s6),
         ev_DDRB = 0, ev_timer0 = False\<rparr>]"
    by (simp add: transmit_sony_12bit_code_def Let_def s6_def s5_def idle_sleep_ms_def
        POST_DELAY_DURATION_def del: bit_loop.simps)
  moreover have "TCCR0A (bit_loop f 0 c s6) = 0"
    by (rule bit_loop_fields) (simp add: s6_def s5_def idle_sleep_us_def)
  ultimately show ?thesis
    using n sn t6 by (simp del: bit_loop.simps)
qed

lemma signal_emitted:
  "signal (emitted f c s) = (True, Us 2400) # (False, Us 600) # bit_signal 12 c @ [(False, Ms 45)]"
  using transmit_trace [of f c s] by (auto simp: emitted_def)

lemma decode_bit_signal:
  "decode_bits n (map (\<lambda>(g, d). (g, duration_us d)) (bit_signal n c) @ g) = Some (map (bit c) [0..<n], g)"
proof (induction n arbitrary: c)
  case 0
  show ?case by simp
next
  case (Suc n)
  have "map (bit c) [0..<Suc n] = bit c 0 # map (bit (drop_bit 1 c)) [0..<n]"
    by (simp add: upt_conv_Cons map_Suc_upt [symmetric] bit_drop_bit_eq del: upt_Suc)
  moreover have "c AND 1 \<noteq> 0 \<longleftrightarrow> bit c 0"
    by (simp add: and_one_eq bit_0 odd_iff_mod_2_eq_one)
  ultimately show ?case
    using Suc.IH [of "drop_bit 1 c"] by simp
qed

lemma sony12_decode_emitted:
  "sony12_decode (waveform (emitted f c s)) = Some (take_bit 12 c)"
proof -
  have "horner_sum of_bool 2 (map (bit c) [0..<12]) = take_bit 12 c"
    by (rule horner_sum_bit_eq_take_bit)
  then show ?thesis
    using decode_bit_signal [of 12 c "[(False, 45000)]"]
    by (simp add: sony12_decode_def waveform_def signal_emitted quiet_def)
qed

lemma waveform_bit_signal:
  "map (\<lambda>(g, d). (g, duration_us d)) (bit_signal n c) =
     concat (map (\<lambda>i. [(True, if bit c i then 1200 else 600), (False, 600)]) [0..<n])"
proof (induction n arbitrary: c)
  case 0
  show ?case by simp
next
  case (Suc n)
  have "c AND 1 \<noteq> 0 \<longleftrightarrow> bit c 0"
    by (simp add: and_one_eq bit_0 odd_iff_mod_2_eq_one)
  then show ?case
    using Suc.IH [of "drop_bit 1 c"]
    by (simp add: upt_conv_Cons map_Suc_upt [symmetric] bit_drop_bit_eq comp_def del: upt_Suc)
qed

subsection \<open>Round trip through the reference decoder\<close>

text \<open>
  Claim C1. For every 12-bit code \<open>c\<close> (\<open>c < 4096\<close>), whatever the clock and the state
  in which \<^verbatim>\<open>transmit_sony_12bit_code\<close> is called, the signal it emits is a header mark of
  2400 us and a space of 600 us, then for \<open>i = 0, ..., 11\<close> in this order a mark of
  1200 us when bit \<open>i\<close> of \<open>c\<close> is set and of 600 us when it is not, each followed by a
  space of 600 us, then 45 ms with the output off; and the reference decoder reads
  exactly \<open>c\<close> from it. The durations are those the source asks of its sleep primitive.
\<close>

theorem sony12_roundtrip:
  "c < 4096 \<Longrightarrow>
   waveform (emitted f_cpu c s) =
     (True, 2400) # (False, 600) #
     concat (map (\<lambda>i. [(True, if bit c i then 1200 else 600), (False, 600)]) [0..<12]) @
     [(False, 45000)] \<and>
   sony12_decode (waveform (emitted f_cpu c s)) = Some c"
proof -
  assume "c < 4096"
  then have "take_bit 12 c = c"
    using less_mask_eq [of c 12] by (simp add: take_bit_eq_mask)
  then show ?thesis
    using sony12_decode_emitted [of f_cpu c s] waveform_bit_signal [of 12 c]
    by (simp add: waveform_def signal_emitted)
qed

theorem sony12_roundtrip_witness:
  "(0xABC :: u16) < 4096 \<and> sony12_decode (waveform (emitted 1000000 0xABC reset_hw)) = Some 0xABC"
proof -
  have h: "(0xABC :: u16) < 4096"
    by simp
  from h sony12_roundtrip [OF h, of 1000000 reset_hw] show ?thesis
    by blast
qed

subsection \<open>Only the low 12 bits of the argument matter\<close>

lemma send_bit_low_bit:
  "bit c1 0 = bit c2 0 \<Longrightarrow> send_bit f c1 s = send_bit f c2 s"
  by (simp add: send_bit_def and_one_eq bit_0 odd_iff_mod_2_eq_one)

lemma bit_loop_low_bits:
  "take_bit (12 - i) c1 = take_bit (12 - i) c2 \<Longrightarrow> bit_loop f i c1 s = bit_loop f i c2 s"
proof (induction f i c1 s arbitrary: c2 rule: bit_loop.induct)
  case (1 f i c1 s)
  show ?case
  proof (cases "i < 12")
    case True
    from "1.prems" have "bit (take_bit (12 - i) c1) 0 = bit (take_bit (12 - i) c2) 0"
      by simp
    with True have b0: "bit c1 0 = bit c2 0"
      by (simp add: bit_take_bit_iff)
    from "1.prems" have "drop_bit 1 (take_bit (12 - i) c1) = drop_bit 1 (take_bit (12 - i) c2)"
      by simp
    then have "take_bit (12 - (i + 1)) (drop_bit 1 c1) = take_bit (12 - (i + 1)) (drop_bit 1 c2)"
      by (simp add: drop_bit_take_bit)
    from "1.IH" [OF True this] True show ?thesis
      by (simp add: send_bit_low_bit [OF b0])
  next
    case False
    then show ?thesis by simp
  qed
qed

text \<open>
  Claim C9. Two codes that agree modulo 4096 make \<^verbatim>\<open>transmit_sony_12bit_code\<close> do the
  same: called in the same state, the two calls end in the same state, trace included, so
  they emit the same sequence of on and off intervals. The loop runs 12 times and shifts
  the code right once per pass, so bits 12 to 15 are never tested.
\<close>

theorem transmit_low_12_bits_only:
  "c1 mod 4096 = c2 mod 4096 \<Longrightarrow>
   transmit_sony_12bit_code f_cpu c1 s = transmit_sony_12bit_code f_cpu c2 s \<and>
   signal (emitted f_cpu c1 s) = signal (emitted f_cpu c2 s)"
proof -
  assume "c1 mod 4096 = c2 mod 4096"
  then have "take_bit (12 - 0) c1 = take_bit (12 - 0) c2"
    by (simp add: take_bit_eq_mod)
  then have "bit_loop f_cpu 0 c1 = bit_loop f_cpu 0 c2"
    by (intro ext bit_loop_low_bits)
  then have "transmit_sony_12bit_code f_cpu c1 s = transmit_sony_12bit_code f_cpu c2 s"
    by (simp add: transmit_sony_12bit_code_def del: bit_loop.simps)
  then show ?thesis
    by (simp add: emitted_def)
qed

theorem transmit_low_12_bits_only_witness:
  "(0xFABC :: u16) mod 4096 = 0x0ABC mod 4096 \<and>
   transmit_sony_12bit_code 1000000 0xFABC reset_hw = transmit_sony_12bit_code 1000000 0x0ABC reset_hw"
proof -
  have h: "(0xFABC :: u16) mod 4096 = 0x0ABC mod 4096"
    by simp
  from h transmit_low_12_bits_only [OF h, of 1000000 reset_hw] show ?thesis
    by blast
qed

subsection \<open>The output line after a transmission\<close>

text \<open>
  Claim C10. For every code, clock and starting state, \<^verbatim>\<open>transmit_sony_12bit_code\<close>
  returns with TCCR0A = 0 (carrier gating cleared), DDRB = 0 (all pins of port B inputs)
  and Timer0 powered down; and the last sleep it takes, the 45 ms post-transmission delay,
  is already taken with these three values, so the line is released before that sleep
  begins.
\<close>

theorem transmit_releases_output:
  "TCCR0A (transmit_sony_12bit_code f_cpu c s) = 0 \<and>
   DDRB (transmit_sony_12bit_code f_cpu c s) = 0 \<and>
   \<not> timer0_on (transmit_sony_12bit_code f_cpu c s) \<and>
   last (trace (transmit_sony_12bit_code f_cpu c s)) =
     IdleSleep \<lparr>requested = Ms 45, ev_ticks = ms_ticks f_cpu POST_DELAY_DURATION,
       ev_prescaler = BV CS13 OR BV CS12 OR BV CS10, ev_TCCR0A = 0, ev_DDRB = 0, ev_timer0 = False\<rparr>"
proof -
  define s6 where "s6 = idle_sleep_us f_cpu BIT_OFF_DURATION
    ((idle_sleep_us f_cpu HEADER_BIT_DURATION
      (s\<lparr>timer0_on := True, TCCR0A := ir_enabled,
          DDRB := PORTB_OUTPUT_PIN_MASK\<rparr>))\<lparr>TCCR0A := 0\<rparr>)"
  have z: "TCCR0A (bit_loop f_cpu 0 c s6) = 0"
    by (rule bit_loop_fields) (simp add: s6_def idle_sleep_us_def)
  have "transmit_sony_12bit_code f_cpu c s =
     idle_sleep_ms f_cpu POST_DELAY_DURATION ((bit_loop f_cpu 0 c s6)\<lparr>DDRB := 0, timer0_on := False\<rparr>)"
    by (simp add: transmit_sony_12bit_code_def Let_def s6_def del: bit_loop.simps)
  then show ?thesis
    using z by (simp add: idle_sleep_ms_def POST_DELAY_DURATION_def del: bit_loop.simps)
qed

subsection \<open>The command table\<close>

text \<open>
  Claim C7. In the compiled-in command table the pinmasks are pairwise distinct, every
  pinmask is nonzero, and every code fits in 12 bits: it is below 4096, that is, its
  bits 12 to 15 are zero.
\<close>

theorem command_table_invariants:
  "distinct (map pinmask command_defs) \<and>
   list_all (\<lambda>d. pinmask d \<noteq> 0 \<and> code d < 4096 \<and> code d AND 0xF000 = 0) command_defs"
  by (simp add: command_defs_def)

subsection \<open>Timing of a frame\<close>

lemma bit_signal_bits:
  "bit_signal n c =
     concat (map (\<lambda>i. [(True, Us (if bit c i then 1200 else 600)), (False, Us 600)]) [0..<n])"
proof (induction n arbitrary: c)
  case 0
  show ?case by simp
next
  case (Suc n)
  have "c AND 1 \<noteq> 0 \<longleftrightarrow> bit c 0"
    by (simp add: and_one_eq bit_0 odd_iff_mod_2_eq_one)
  then show ?case
    using Suc.IH [of "drop_bit 1 c"]
    by (simp add: upt_conv_Cons map_Suc_upt [symmetric] bit_drop_bit_eq comp_def del: upt_Suc)
qed

lemma upt_12: "[0..<12] = [0, 1, 2, 3, 4, 5, 6, 7, 8, 9, 10, 11]"
  by (simp add: upt_rec)

text \<open>
  Claim C2. The sleeps of a transmission are asked for with exactly the constants of
  remote.c: the header mark with \<^verbatim>\<open>HEADER_BIT_DURATION\<close> = 2400 us, every space with
  \<^verbatim>\<open>BIT_OFF_DURATION\<close> = 600 us, the mark of a zero with \<^verbatim>\<open>ZERO_BIT_ON_DURATION\<close> =
  600 us, the mark of a one with \<^verbatim>\<open>ONE_BIT_ON_DURATION\<close> = 1200 us, the final sleep with
  \<^verbatim>\<open>POST_DELAY_DURATION\<close> = 45 ms. So for code 0 the requested carrier-on time adds up
  to 2400 + 12 * 600 = 9600 us, the requested carrier-off time of the frame (the signal
  without its final interval) to 13 * 600 = 7800 us, and the final interval is 45 ms
  with the carrier off.
\<close>

theorem timing_of_a_frame:
  "signal (emitted f_cpu c s) =
     (True, Us (unat HEADER_BIT_DURATION)) # (False, Us (unat BIT_OFF_DURATION)) #
     concat (map (\<lambda>i. [(True, Us (unat (if bit c i then ONE_BIT_ON_DURATION else ZERO_BIT_ON_DURATION))),
                        (False, Us (unat BIT_OFF_DURATION))]) [0..<12]) @
     [(False, Ms (unat POST_DELAY_DURATION))] \<and>
   HEADER_BIT_DURATION = 2400 \<and> BIT_OFF_DURATION = 600 \<and> ZERO_BIT_ON_DURATION = 600 \<and>
   ONE_BIT_ON_DURATION = 1200 \<and> POST_DELAY_DURATION = 45 \<and>
   on_time (waveform (emitted f_cpu 0 s)) = 2400 + 12 * 600 \<and>
   on_time (waveform (emitted f_cpu 0 s)) = 9600 \<and>
   off_time (butlast (waveform (emitted f_cpu 0 s))) = 13 * 600 \<and>
   off_time (butlast (waveform (emitted f_cpu 0 s))) = 7800 \<and>
   last (waveform (emitted f_cpu 0 s)) = (False, 45000)"
proof -
  have "signal (emitted f_cpu 0 s) =
     (True, Us 2400) # (False, Us 600) #
     concat (map (\<lambda>i. [(True, Us 600), (False, Us 600)]) [0..<12]) @ [(False, Ms 45)]"
    by (simp add: signal_emitted bit_signal_bits)
  then have "waveform (emitted f_cpu 0 s) =
     (True, 2400) # (False, 600) #
     concat (map (\<lambda>i. [(True, 600), (False, 600)]) [0..<12]) @ [(False, 45000)]"
    by (simp add: waveform_def upt_12)
  then have "on_time (waveform (emitted f_cpu 0 s)) = 9600"
    and "off_time (butlast (waveform (emitted f_cpu 0 s))) = 7800"
    and "last (waveform (emitted f_cpu 0 s)) = (False, 45000)"
    by (simp_all add: on_time_def off_time_def upt_12)
  moreover have "signal (emitted f_cpu c s) =
     (True, Us (unat HEADER_BIT_DURATION)) # (False, Us (unat BIT_OFF_DURATION)) #
     concat (map (\<lambda>i. [(True, Us (unat (if bit c i then ONE_BIT_ON_DURATION else ZERO_BIT_ON_DURATION))),
                        (False, Us (unat BIT_OFF_DURATION))]) [0..<12]) @
     [(False, Ms (unat POST_DELAY_DURATION))]"
    by (simp add: signal_emitted bit_signal_bits HEADER_BIT_DURATION_def BIT_OFF_DURATION_def
        ONE_BIT_ON_DURATION_def ZERO_BIT_ON_DURATION_def POST_DELAY_DURATION_def if_distrib cong: if_cong)
  ultimately show ?thesis
    by (simp add: HEADER_BIT_DURATION_def BIT_OFF_DURATION_def
        ONE_BIT_ON_DURATION_def ZERO_BIT_ON_DURATION_def POST_DELAY_DURATION_def)
qed

subsection \<open>Resolving a button mask\<close>

lemma transmit_sent [simp]: "sent (transmit_sony_12bit_code f c s) = sent s"
  by (simp add: transmit_sony_12bit_code_def Let_def idle_sleep_us_def idle_sleep_ms_def
      bit_loop_fields del: bit_loop.simps)

lemma scan_commands_find:
  "scan_commands f b tbl s =
    (case find (\<lambda>d. pinmask d = b) tbl of
       None \<Rightarrow> idle_sleep_ms f DEBOUNCE_DURATION s
     | Some d \<Rightarrow> transmit_sony_12bit_code f (code d) (s\<lparr>sent := sent s @ [code d]\<rparr>))"
  by (induction tbl) (auto simp: Let_def)

lemma find_distinct_nth:
  "distinct (map g xs) \<Longrightarrow> i < length xs \<Longrightarrow> find (\<lambda>d. g d = g (xs ! i)) xs = Some (xs ! i)"
proof (induction xs arbitrary: i)
  case Nil
  then show ?case by simp
next
  case (Cons x xs)
  show ?case
  proof (cases i)
    case 0
    then show ?thesis by simp
  next
    case (Suc j)
    with Cons.prems have "g (xs ! j) \<in> set (map g xs)" "g x \<notin> set (map g xs)"
      by auto
    then have "g x \<noteq> g (xs ! j)"
      by metis
    with Cons Suc show ?thesis
      by simp
  qed
qed

lemma distinct_pinmasks: "distinct (map pinmask command_defs)"
  by (simp add: command_defs_def)

text \<open>
  Claim C3. When \<open>buttons\<close> equals the pinmask of entry \<open>i\<close> of the command table, that
  entry is the first one in table order whose pinmask equals \<open>buttons\<close>, and
  \<^verbatim>\<open>transmit_code_for_buttons\<close> does exactly what \<^verbatim>\<open>transmit_sony_12bit_code\<close> does with
  the code of entry \<open>i\<close>, and makes this one call. The comparison is equality of the whole
  mask: the chord 0b00001100 transmits the code 148 of the mute entry, not the code of
  the volume-up (0b00000100) or volume-down (0b00001000) entry.
\<close>

theorem resolver_exact_match:
  assumes "i < length command_defs" and "buttons = pinmask (command_defs ! i)"
  shows "find (\<lambda>d. pinmask d = buttons) command_defs = Some (command_defs ! i) \<and>
    transmit_code_for_buttons f_cpu buttons s =
      transmit_sony_12bit_code f_cpu (code (command_defs ! i))
        (s\<lparr>sent := sent s @ [code (command_defs ! i)]\<rparr>) \<and>
    sent (transmit_code_for_buttons f_cpu buttons s) = sent s @ [code (command_defs ! i)] \<and>
    transmit_code_for_buttons f_cpu 0x0C s =
      transmit_sony_12bit_code f_cpu 148 (s\<lparr>sent := sent s @ [148]\<rparr>) \<and>
    sent (transmit_code_for_buttons f_cpu 0x0C s) = sent s @ [148]"
proof -
  from assms find_distinct_nth [OF distinct_pinmasks, of i]
  have "find (\<lambda>d. pinmask d = buttons) command_defs = Some (command_defs ! i)"
    by simp
  moreover have "find (\<lambda>d. pinmask d = 0x0C) command_defs = Some \<lparr>pinmask = 0x0C, code = 148\<rparr>"
    by (simp add: command_defs_def)
  ultimately show ?thesis
    by (simp add: transmit_code_for_buttons_def scan_commands_find)
qed

theorem resolver_exact_match_witness:
  "(3 :: nat) < length command_defs \<and> (0x0C :: u8) = pinmask (command_defs ! 3) \<and>
   code (command_defs ! 3) = 148 \<and>
   sent (transmit_code_for_buttons 1000000 0x0C reset_hw) = [148]"
proof -
  have h: "(3 :: nat) < length command_defs" "(0x0C :: u8) = pinmask (command_defs ! 3)"
    by (simp_all add: command_defs_def)
  have c: "code (command_defs ! 3) = 148"
    by (simp add: command_defs_def)
  from resolver_exact_match [OF h, of 1000000 reset_hw]
  have "sent (transmit_code_for_buttons 1000000 0x0C reset_hw) = sent reset_hw @ [148]"
    by blast
  with h c show ?thesis
    by (simp add: reset_hw_def)
qed

text \<open>
  Claim C5. When \<open>buttons\<close> is the pinmask of no entry of the command table,
  \<^verbatim>\<open>transmit_code_for_buttons\<close> does what one \<^verbatim>\<open>idle_sleep_ms(DEBOUNCE_DURATION)\<close> does:
  it calls \<^verbatim>\<open>transmit_sony_12bit_code\<close> not at all (\<open>sent\<close> is unchanged) and adds to the
  trace exactly one idle sleep, of 10 ms.
\<close>

theorem unmapped_mask_only_sleeps:
  assumes "buttons \<notin> set (map pinmask command_defs)"
  shows "transmit_code_for_buttons f_cpu buttons s = idle_sleep_ms f_cpu DEBOUNCE_DURATION s \<and>
    sent (transmit_code_for_buttons f_cpu buttons s) = sent s \<and>
    trace (transmit_code_for_buttons f_cpu buttons s) = trace s @
      [IdleSleep \<lparr>requested = Ms 10, ev_ticks = ms_ticks f_cpu DEBOUNCE_DURATION,
         ev_prescaler = BV CS13 OR BV CS12 OR BV CS10,
         ev_TCCR0A = TCCR0A s, ev_DDRB = DDRB s, ev_timer0 = timer0_on s\<rparr>]"
proof -
  from assms have "find (\<lambda>d. pinmask d = buttons) command_defs = None"
    by (auto simp: find_None_iff)
  then show ?thesis
    by (simp add: transmit_code_for_buttons_def scan_commands_find idle_sleep_ms_def
        DEBOUNCE_DURATION_def)
qed

theorem unmapped_mask_only_sleeps_witness:
  "(0x06 :: u8) \<notin> set (map pinmask command_defs) \<and>
   sent (transmit_code_for_buttons 1000000 0x06 reset_hw) = [] \<and>
   signal (trace (transmit_code_for_buttons 1000000 0x06 reset_hw)) = [(False, Ms 10)]"
proof -
  have h: "(0x06 :: u8) \<notin> set (map pinmask command_defs)"
    by (simp add: command_defs_def)
  from unmapped_mask_only_sleeps [OF h, of 1000000 reset_hw]
  have "sent (transmit_code_for_buttons 1000000 0x06 reset_hw) = sent reset_hw"
    and "trace (transmit_code_for_buttons 1000000 0x06 reset_hw) = trace reset_hw @
      [IdleSleep \<lparr>requested = Ms 10, ev_ticks = ms_ticks 1000000 DEBOUNCE_DURATION,
         ev_prescaler = BV CS13 OR BV CS12 OR BV CS10,
         ev_TCCR0A = TCCR0A reset_hw, ev_DDRB = DDRB reset_hw, ev_timer0 = timer0_on reset_hw\<rparr>]"
    by blast+
  with h show ?thesis
    by (simp add: reset_hw_def)
qed

subsection \<open>The power button\<close>

lemma transmit_code_for_buttons_2:
  "transmit_code_for_buttons f_cpu 0x02 s =
     transmit_sony_12bit_code f_cpu 149 (s\<lparr>sent := sent s @ [149]\<rparr>)"
  by (simp add: transmit_code_for_buttons_def command_defs_def)

lemma emitted_for_buttons_2:
  "signal (emitted_for_buttons f_cpu 0x02 s) =
     [(True, Us 2400), (False, Us 600),
      (True, Us 1200), (False, Us 600), (True, Us 600), (False, Us 600),
      (True, Us 1200), (False, Us 600), (True, Us 600), (False, Us 600),
      (True, Us 1200), (False, Us 600), (True, Us 600), (False, Us 600),
      (True, Us 600), (False, Us 600), (True, Us 1200), (False, Us 600),
      (True, Us 600), (False, Us 600), (True, Us 600), (False, Us 600),
      (True, Us 600), (False, Us 600), (True, Us 600), (False, Us 600),
      (False, Ms 45)]"
proof -
  have "emitted_for_buttons f_cpu 0x02 s = emitted f_cpu 149 (s\<lparr>sent := sent s @ [149]\<rparr>)"
    by (simp add: emitted_for_buttons_def emitted_def transmit_code_for_buttons_2)
  then show ?thesis
    by (simp add: signal_emitted bit_signal_bits upt_12 bit_simps)
qed

text \<open>
  Claim C4 as stated fails: the twelve data bits sent for the button line 0b00000010 are
  not 1,0,1,0,1,0,0,1,0,1,0,0.
\<close>

theorem power_button_bits_counterexample:
  "data_bits (signal (emitted_for_buttons 1000000 0x02 (main_init 1000000 reset_hw))) \<noteq>
     [True, False, True, False, True, False, False, True, False, True, False, False]"
  by (simp add: emitted_for_buttons_2 data_bits_def ONE_BIT_ON_DURATION_def)

text \<open>
  Claim C4, amended. Pressing only the button line with pinmask 0b00000010 transmits the
  code 21 | (1<<7) = 149, and the twelve data bits sent, least significant first, are
  1,0,1,0,1,0,0,1,0,0,0,0: the bits 0 to 11 of 149.
\<close>

theorem power_button_code_and_bits:
  "(21 :: u16) OR push_bit 7 1 = 149 \<and>
   transmit_code_for_buttons f_cpu 0x02 s =
     transmit_sony_12bit_code f_cpu 149 (s\<lparr>sent := sent s @ [149]\<rparr>) \<and>
   sent (transmit_code_for_buttons f_cpu 0x02 s) = sent s @ [149] \<and>
   data_bits (signal (emitted_for_buttons f_cpu 0x02 s)) =
     [True, False, True, False, True, False, False, True, False, False, False, False] \<and>
   map (bit (149 :: u16)) [0..<12] =
     [True, False, True, False, True, False, False, True, False, False, False, False]"
  by (simp add: emitted_for_buttons_2 data_bits_def ONE_BIT_ON_DURATION_def
      transmit_code_for_buttons_2 upt_12 bit_simps)

subsection \<open>Ranges of the idle sleeps at 1 MHz\<close>

lemma idle_sleep_OCR1A [simp]: "OCR1A (idle_sleep r t p s) = t"
  by (simp add: idle_sleep_def TIMER1_COMPA_vect_def Let_def)

lemma unat_us_ticks:
  assumes "unat us \<le> 4294"
  shows "unat (us_ticks 1000000 us) = (unat us div 16) mod 256"
proof -
  have "unat (1000000 * us) = (1000000 * unat us) mod 2 ^ 32"
    by (simp add: unat_word_ariths)
  also from assms have "\<dots> = 1000000 * unat us"
    by simp
  finally have "unat ((1000000 * us) div 16000000) = (1000000 * unat us) div 16000000"
    by (simp add: unat_div)
  also have "\<dots> = unat us div 16"
    by simp
  finally show ?thesis
    by (simp add: us_ticks_def unsigned_ucast_eq take_bit_eq_mod)
qed

lemma unat_ms_ticks:
  assumes "unat ms \<le> 4294"
  shows "unat (ms_ticks 1000000 ms) = (unat ms * 1000 div 4096) mod 256"
proof -
  have "unat (1000000 * ms) = (1000000 * unat ms) mod 2 ^ 32"
    by (simp add: unat_word_ariths)
  also from assms have "\<dots> = 1000000 * unat ms"
    by simp
  finally have "unat ((1000000 * ms) div 4096000) = (1000000 * unat ms) div 4096000"
    by (simp add: unat_div)
  also have "\<dots> = unat ms * 1000 div 4096"
    by simp
  finally show ?thesis
    by (simp add: ms_ticks_def unsigned_ucast_eq take_bit_eq_mod)
qed

lemma sleep_time_us_1MHz:
  "sleep_time_us 1000000 (BV CS12 OR BV CS10) t = 16 * unat t"
  "sleep_time_us 1000000 (BV CS13 OR BV CS12 OR BV CS10) t = 4096 * unat t"
  by (simp_all add: sleep_time_us_def timer1_divisor_def BV_def CS10_def CS12_def CS13_def)

text \<open>
  The compare values of the sleeps remote.c asks for, at 1 MHz. 600 us is not a multiple
  of the 16 us tick: 37 ticks are 592 us. 45 ms become 10 ticks of 4.096 ms, 10 ms
  become 2.
\<close>

lemma ticks_at_1MHz:
  "us_ticks 1000000 HEADER_BIT_DURATION = 150"
  "us_ticks 1000000 ONE_BIT_ON_DURATION = 75"
  "us_ticks 1000000 ZERO_BIT_ON_DURATION = 37"
  "us_ticks 1000000 BIT_OFF_DURATION = 37"
  "ms_ticks 1000000 POST_DELAY_DURATION = 10"
  "ms_ticks 1000000 DEBOUNCE_DURATION = 2"
  by (simp_all add: us_ticks_def ms_ticks_def HEADER_BIT_DURATION_def ONE_BIT_ON_DURATION_def
      ZERO_BIT_ON_DURATION_def BIT_OFF_DURATION_def POST_DELAY_DURATION_def DEBOUNCE_DURATION_def)

lemma unat_u8_bounds: "t \<noteq> 0 \<Longrightarrow> 1 \<le> unat t \<and> unat t \<le> 255" for t :: u8
  using unsigned_less [of t, where ?'a = nat] by (simp add: unat_gt_0 Suc_le_eq)

text \<open>
  Claim C8. \<^verbatim>\<open>idle_sleep_us(us)\<close> loads the 8-bit compare register OCR1A with
  \<open>us * F_CPU / (16 * 10^6)\<close> and \<^verbatim>\<open>idle_sleep_ms(ms)\<close> with \<open>ms * F_CPU / (4096 * 1000)\<close>
  (32-bit product, quotient cut to 8 bits). At \<open>F_CPU\<close> = 1 MHz: for \<open>us\<close> from 16 to 4080
  the tick count is \<open>us div 16\<close>, between 1 and 255; a nonzero tick count \<open>t\<close> at the 1/16
  prescaler lasts \<open>16 * t\<close> us, between 16 and 4080 us, both ends reached (by \<open>us\<close> = 16
  and \<open>us\<close> = 4080), and \<open>us\<close> = 15 gives no tick. For \<open>ms\<close> from 5 to 1045 the tick count is
  \<open>ms * 1000 div 4096\<close>, between 1 and 255; a nonzero tick count \<open>t\<close> at the 1/4096
  prescaler lasts \<open>4096 * t\<close> us, between 4.096 ms and 1044.48 ms, both ends reached (by
  \<open>ms\<close> = 5 and \<open>ms\<close> = 1045), and \<open>ms\<close> = 4 gives no tick: approximately 5 to 1045 ms.
\<close>

theorem idle_sleep_ranges_1MHz:
  assumes "16 \<le> us" and "us \<le> 4080" and "5 \<le> ms" and "ms \<le> 1045" and "t \<noteq> 0"
  shows "OCR1A (idle_sleep_us f_cpu us s) = ucast ((f_cpu * us) div (16 * 1000000)) \<and>
    OCR1A (idle_sleep_ms f_cpu ms s) = ucast ((f_cpu * ms) div (4096 * 1000)) \<and>
    unat (us_ticks 1000000 us) = unat us div 16 \<and>
    1 \<le> unat (us_ticks 1000000 us) \<and> unat (us_ticks 1000000 us) \<le> 255 \<and>
    sleep_time_us 1000000 (BV CS12 OR BV CS10) t = 16 * unat t \<and>
    16 \<le> sleep_time_us 1000000 (BV CS12 OR BV CS10) t \<and>
    sleep_time_us 1000000 (BV CS12 OR BV CS10) t \<le> 4080 \<and>
    sleep_time_us 1000000 (BV CS12 OR BV CS10) (us_ticks 1000000 16) = 16 \<and>
    sleep_time_us 1000000 (BV CS12 OR BV CS10) (us_ticks 1000000 4080) = 4080 \<and>
    us_ticks 1000000 15 = 0 \<and>
    unat (ms_ticks 1000000 ms) = unat ms * 1000 div 4096 \<and>
    1 \<le> unat (ms_ticks 1000000 ms) \<and> unat (ms_ticks 1000000 ms) \<le> 255 \<and>
    sleep_time_us 1000000 (BV CS13 OR BV CS12 OR BV CS10) t = 4096 * unat t \<and>
    4096 \<le> sleep_time_us 1000000 (BV CS13 OR BV CS12 OR BV CS10) t \<and>
    sleep_time_us 1000000 (BV CS13 OR BV CS12 OR BV CS10) t \<le> 1044480 \<and>
    sleep_time_us 1000000 (BV CS13 OR BV CS12 OR BV CS10) (ms_ticks 1000000 5) = 4096 \<and>
    sleep_time_us 1000000 (BV CS13 OR BV CS12 OR BV CS10) (ms_ticks 1000000 1045) = 1044480 \<and>
    ms_ticks 1000000 4 = 0"
proof -
  from assms have u: "16 \<le> unat us" "unat us \<le> 4080" and m: "5 \<le> unat ms" "unat ms \<le> 1045"
    by (simp_all add: word_le_nat_alt)
  from u have ut: "unat (us_ticks 1000000 us) = unat us div 16"
    by (simp add: unat_us_ticks)
  from m have "unat ms * 1000 div 4096 < 256"
    by simp
  with m have mt: "unat (ms_ticks 1000000 ms) = unat ms * 1000 div 4096"
    by (simp add: unat_ms_ticks)
  from u ut have ub: "1 \<le> unat (us_ticks 1000000 us)" "unat (us_ticks 1000000 us) \<le> 255"
    by simp_all
  from m mt have mb: "1 \<le> unat (ms_ticks 1000000 ms)" "unat (ms_ticks 1000000 ms) \<le> 255"
    by simp_all
  have e: "us_ticks 1000000 16 = 1" "us_ticks 1000000 4080 = 255" "us_ticks 1000000 15 = 0"
    "ms_ticks 1000000 5 = 1" "ms_ticks 1000000 1045 = 255" "ms_ticks 1000000 4 = 0"
    by (simp_all add: us_ticks_def ms_ticks_def)
  from unat_u8_bounds [OF \<open>t \<noteq> 0\<close>] ut mt ub mb show ?thesis
    by (simp add: sleep_time_us_1MHz e idle_sleep_us_def idle_sleep_ms_def us_ticks_def ms_ticks_def)
qed

theorem idle_sleep_ranges_1MHz_witness:
  "(16 :: u32) \<le> 600 \<and> (600 :: u32) \<le> 4080 \<and> (5 :: u32) \<le> 45 \<and> (45 :: u32) \<le> 1045 \<and>
   (37 :: u8) \<noteq> 0 \<and>
   unat (us_ticks 1000000 600) = 600 div 16 \<and> unat (ms_ticks 1000000 45) = 45 * 1000 div 4096 \<and>
   sleep_time_us 1000000 (BV CS12 OR BV CS10) 37 = 592"
proof -
  have h: "(16 :: u32) \<le> 600" "(600 :: u32) \<le> 4080" "(5 :: u32) \<le> 45" "(45 :: u32) \<le> 1045"
    "(37 :: u8) \<noteq> 0"
    by simp_all
  from idle_sleep_ranges_1MHz [OF h, of 0 reset_hw]
  have "unat (us_ticks 1000000 600) = unat (600 :: u32) div 16"
    and "unat (ms_ticks 1000000 45) = unat (45 :: u32) * 1000 div 4096"
    and "sleep_time_us 1000000 (BV CS12 OR BV CS10) 37 = 16 * unat (37 :: u8)"
    by blast+
  with h show ?thesis
    by simp
qed

subsection \<open>The debounce state machine\<close>

lemma power_down_sent [simp]: "sent (power_down_and_wait_for_pin_change s) = sent s"
  by (simp add: power_down_and_wait_for_pin_change_def PCINT0_vect_def Let_def)

lemma idle_sleep_ms_sent [simp]: "sent (idle_sleep_ms f ms s) = sent s"
  by (simp add: idle_sleep_ms_def)

lemma main_init_sent [simp]: "sent (main_init f s) = sent s"
  by (simp add: main_init_def Let_def)

lemma transmit_code_for_buttons_sent_2:
  "sent (transmit_code_for_buttons f 0x02 s) = sent s @ [149]"
  by (simp add: transmit_code_for_buttons_2)

lemma processing_loop_accept:
  "processing_loop f x x pinb s =
    (if NOT x AND PORTB_BUTTON_PIN_MASK = 0 then (Some pinb, s)
     else (case pinb of
             [] \<Rightarrow> (None, transmit_code_for_buttons f (NOT x AND PORTB_BUTTON_PIN_MASK) s)
           | y # ys \<Rightarrow> processing_loop f x y ys
                (transmit_code_for_buttons f (NOT x AND PORTB_BUTTON_PIN_MASK) s)))"
  by (subst processing_loop.simps) (simp add: Let_def)

lemma processing_loop_restart:
  "input \<noteq> last_input \<Longrightarrow>
   processing_loop f last_input input pinb s =
    (case pinb of
       [] \<Rightarrow> (None, idle_sleep_ms f DEBOUNCE_DURATION s)
     | y # ys \<Rightarrow> processing_loop f input y ys (idle_sleep_ms f DEBOUNCE_DURATION s))"
  by (subst processing_loop.simps) (simp add: Let_def)

lemma processing_loop_never_stable:
  "input \<noteq> last_input \<Longrightarrow> distinct_adj (input # pinb) \<Longrightarrow>
   processing_loop f last_input input pinb s =
     (None, (idle_sleep_ms f DEBOUNCE_DURATION ^^ Suc (length pinb)) s)"
proof (induction pinb arbitrary: last_input input s)
  case Nil
  then show ?case
    by (simp add: processing_loop_restart)
next
  case (Cons y ys)
  from Cons.prems have "y \<noteq> input" "distinct_adj (y # ys)"
    by auto
  from Cons.IH [OF this] Cons.prems(1)
  show ?case
    by (simp add: processing_loop_restart funpow_swap1)
qed

lemma funpow_sleep_sent: "sent ((idle_sleep_ms f ms ^^ n) s) = sent s"
  by (induction n) simp_all

text \<open>
  Claim C6 as stated fails: after a wake-up a single sample is enough. With the one
  sample 0b00011100 (line 1 low), in which no two consecutive samples can be equal, the
  code 149 is transmitted.
\<close>

theorem first_sample_accepted_counterexample:
  "distinct_adj [0x1C :: u8] \<and> sent (main 1000000 [0x1C]) = [149]"
proof -
  have "NOT (0x1C :: u8) AND PORTB_BUTTON_PIN_MASK = 0x02"
    by (simp add: PORTB_BUTTON_PIN_MASK_def)
  then show ?thesis
    by (simp add: main_def main_loop.simps [of _ "[_]"] processing_loop_accept
        transmit_code_for_buttons_sent_2 reset_hw_def)
qed

text \<open>
  Claim C6, amended. A reading is accepted as stable when it is bitwise identical to the
  stored previous sample \<open>last_input\<close>. After a wake-up the loop sleeps one debounce
  interval, reads one sample and stores it as its own previous sample, so the first
  sample is accepted at once. An accepted reading \<open>x\<close> gives the pressed mask
  \<open>NOT x AND PORTB_BUTTON_PIN_MASK\<close>: when it is zero the loop goes back to power-down,
  otherwise \<^verbatim>\<open>transmit_code_for_buttons\<close> is called with it and the next sample is compared
  with \<open>x\<close>. Whenever the newly read sample differs from the previous one the loop
  restarts the wait: it stores the new sample, idle-sleeps one debounce interval and
  re-samples, transmitting nothing. So as long as every sample differs from the one
  before it, nothing is accepted: the loop only sleeps, once per sample.
\<close>

theorem debounce_state_machine:
  "main_loop f_cpu (x # pinb) s =
     (case processing_loop f_cpu x x pinb
             (idle_sleep_ms f_cpu DEBOUNCE_DURATION (power_down_and_wait_for_pin_change s)) of
        (None, s') \<Rightarrow> s'
      | (Some rest, s') \<Rightarrow> main_loop f_cpu rest s') \<and>
   processing_loop f_cpu x x pinb s =
     (if NOT x AND PORTB_BUTTON_PIN_MASK = 0 then (Some pinb, s)
      else (case pinb of
              [] \<Rightarrow> (None, transmit_code_for_buttons f_cpu (NOT x AND PORTB_BUTTON_PIN_MASK) s)
            | y # ys \<Rightarrow> processing_loop f_cpu x y ys
                 (transmit_code_for_buttons f_cpu (NOT x AND PORTB_BUTTON_PIN_MASK) s))) \<and>
   (input \<noteq> last_input \<longrightarrow>
      processing_loop f_cpu last_input input (y # ys) s =
        processing_loop f_cpu input y ys (idle_sleep_ms f_cpu DEBOUNCE_DURATION s) \<and>
      sent (idle_sleep_ms f_cpu DEBOUNCE_DURATION s) = sent s) \<and>
   (input \<noteq> last_input \<and> distinct_adj (input # pinb) \<longrightarrow>
      processing_loop f_cpu last_input input pinb s =
        (None, (idle_sleep_ms f_cpu DEBOUNCE_DURATION ^^ Suc (length pinb)) s) \<and>
      sent ((idle_sleep_ms f_cpu DEBOUNCE_DURATION ^^ Suc (length pinb)) s) = sent s)"
proof (intro conjI impI)
  show "main_loop f_cpu (x # pinb) s =
     (case processing_loop f_cpu x x pinb
             (idle_sleep_ms f_cpu DEBOUNCE_DURATION (power_down_and_wait_for_pin_change s)) of
        (None, s') \<Rightarrow> s'
      | (Some rest, s') \<Rightarrow> main_loop f_cpu rest s')"
    by (subst main_loop.simps) simp
  show "processing_loop f_cpu x x pinb s =
     (if NOT x AND PORTB_BUTTON_PIN_MASK = 0 then (Some pinb, s)
      else (case pinb of
              [] \<Rightarrow> (None, transmit_code_for_buttons f_cpu (NOT x AND PORTB_BUTTON_PIN_MASK) s)
            | y # ys \<Rightarrow> processing_loop f_cpu x y ys
                 (transmit_code_for_buttons f_cpu (NOT x AND PORTB_BUTTON_PIN_MASK) s)))"
    by (rule processing_loop_accept)
  show "processing_loop f_cpu last_input input (y # ys) s =
        processing_loop f_cpu input y ys (idle_sleep_ms f_cpu DEBOUNCE_DURATION s)"
    if "input \<noteq> last_input"
    using that by (simp add: processing_loop_restart)
  show "sent (idle_sleep_ms f_cpu DEBOUNCE_DURATION s) = sent s"
    by simp
  show "processing_loop f_cpu last_input input pinb s =
        (None, (idle_sleep_ms f_cpu DEBOUNCE_DURATION ^^ Suc (length pinb)) s)"
    if "input \<noteq> last_input \<and> distinct_adj (input # pinb)"
    using that by (intro processing_loop_never_stable) blast+
  show "sent ((idle_sleep_ms f_cpu DEBOUNCE_DURATION ^^ Suc (length pinb)) s) = sent s"
    by (rule funpow_sleep_sent)
qed

theorem debounce_state_machine_witness:
  "(0x1C :: u8) \<noteq> 0x1E \<and> distinct_adj [0x1C, 0x1E, 0x1C :: u8] \<and>
   processing_loop 1000000 0x1E 0x1C [0x1E, 0x1C] reset_hw =
     (None, (idle_sleep_ms 1000000 DEBOUNCE_DURATION ^^ 3) reset_hw) \<and>
   processing_loop 1000000 0x1E 0x1C [0x1C, 0x1C] reset_hw =
     processing_loop 1000000 0x1C 0x1C [0x1C] (idle_sleep_ms 1000000 DEBOUNCE_DURATION reset_hw)"
proof -
  have h: "(0x1C :: u8) \<noteq> 0x1E" "distinct_adj [0x1C, 0x1E, 0x1C :: u8]"
    by simp_all
  from debounce_state_machine [where f_cpu = 1000000 and s = reset_hw and input = "0x1C"
      and last_input = "0x1E" and pinb = "[0x1E, 0x1C]"] h
  have a: "processing_loop 1000000 0x1E 0x1C [0x1E, 0x1C] reset_hw =
     (None, (idle_sleep_ms 1000000 DEBOUNCE_DURATION ^^ Suc (length [0x1E, 0x1C :: u8])) reset_hw)"
    by blast
  from debounce_state_machine [where f_cpu = 1000000 and s = reset_hw and input = "0x1C"
      and last_input = "0x1E" and y = "0x1C" and ys = "[0x1C]"] h
  have b: "processing_loop 1000000 0x1E 0x1C [0x1C, 0x1C] reset_hw =
     processing_loop 1000000 0x1C 0x1C [0x1C] (idle_sleep_ms 1000000 DEBOUNCE_DURATION reset_hw)"
    by blast
  from a b h show ?thesis
    by (simp add: numeral_3_eq_3 del: funpow.simps)
qed

end
